theory Spec2Isabelle
  imports Main
begin

section \<open>Python values, exceptions and functions\<close>

text \<open>
  The module \<open>defk.py\<close> turns a function of several named parameters into a function of
  one dict. The values that flow through it are modelled by \<open>pyval\<close>. A dict with string
  keys is an association list in insertion order; a dict object never holds a key twice.
\<close>

datatype pyval =
    PNone
  | PInt int
  | PStr string
  | PList "pyval list"
  | PDict "(string \<times> pyval) list"

type_synonym dict = "(string \<times> pyval) list"

text \<open>
  Exceptions are values. \<open>KeyError k\<close> is what \<open>d[k]\<close> raises on a missing key,
  \<open>UnboundLocalError v\<close> what reading the unassigned local \<open>v\<close> raises, \<open>TypeError\<close> what
  \<open>getargspec\<close> raises on a non-function and what a call raises when its arguments do not
  fit the signature. \<open>Exception\<close> stands for whatever else a target function raises.
\<close>

datatype exn =
    KeyError string
  | TypeError
  | IndexError
  | UnboundLocalError string
  | Exception string

text \<open>
  A Python function, as \<open>inspect.getargspec\<close> sees it: the names of its positional
  parameters, the name of its \<open>*\<close> parameter and of its \<open>**\<close> parameter if any, the
  default values of its last parameters, and its body. The body receives the values of the
  named parameters in declaration order, the tuple collected by the \<open>*\<close> parameter and the
  dict collected by the \<open>**\<close> parameter; it runs in a store \<open>'s\<close> that it may change,
  and returns a value or raises.
\<close>

record 's pyfunc =
  fn_args :: "string list"
  fn_varargs :: "string option"
  fn_keywords :: "string option"
  fn_defaults :: "pyval list"
  fn_body :: "pyval list \<Rightarrow> pyval list \<Rightarrow> dict \<Rightarrow> 's \<Rightarrow> (exn + pyval) \<times> 's"

text \<open>What \<open>defk\<close> and \<open>decorator\<close> can be handed: a plain value or a function.\<close>

datatype 's pyobj = Val pyval | Fun "'s pyfunc"

text \<open>
  The subscript \<open>xs[i]\<close> of a tuple: positions \<open>0\<close> to \<open>len(xs) - 1\<close>, and \<open>-1\<close> down to
  \<open>-len(xs)\<close> for the same items read from the right end.
\<close>

definition py_index :: "'a list \<Rightarrow> int \<Rightarrow> exn + 'a" where
  "py_index xs i =
     (if 0 \<le> i \<and> i < int (length xs) then Inr (xs ! nat i)
      else if i < 0 \<and> - int (length xs) \<le> i then Inr (xs ! nat (int (length xs) + i))
      else Inl IndexError)"

text \<open>Truth value of a variable that holds \<open>None\<close> or a string.\<close>

definition truthy :: "string option \<Rightarrow> bool" where
  "truthy v = (case v of None \<Rightarrow> False | Some s \<Rightarrow> s \<noteq> [])"

text \<open>
  Defaults belong to the last parameters: with \<open>n\<close> parameters and \<open>m\<close> defaults,
  parameter \<open>j\<close> has a default when \<open>n - m \<le> j\<close>, and it is default number
  \<open>j - (n - m)\<close>. The differences are taken in the integers.
\<close>

definition has_default :: "'s pyfunc \<Rightarrow> nat \<Rightarrow> bool" where
  "has_default f j = (int (length (fn_args f)) - int (length (fn_defaults f)) \<le> int j)"

definition default_value :: "'s pyfunc \<Rightarrow> nat \<Rightarrow> pyval" where
  "default_value f j =
     fn_defaults f ! nat (int j - (int (length (fn_args f)) - int (length (fn_defaults f))))"

text \<open>
  The call \<open>f(*pos, **kw)\<close>. Positional values fill the named parameters from the left;
  surplus ones need a \<open>*\<close> parameter. A keyword that names a parameter already filled, or
  that names no parameter when there is no \<open>**\<close> parameter, is an error. A parameter left
  unfilled takes its keyword, else its default, else the call is an error. Every such
  error is a \<open>TypeError\<close>, raised before the body runs; so is calling a non-function.
\<close>

definition py_call ::
  "'s pyobj \<Rightarrow> pyval list \<Rightarrow> dict \<Rightarrow> 's \<Rightarrow> (exn + pyval) \<times> 's" where
  "py_call obj pos kw s =
     (case obj of
        Val v \<Rightarrow> (Inl TypeError, s)
      | Fun f \<Rightarrow>
          (let params = fn_args f; n = length params; np = length pos
           in if n < np \<and> fn_varargs f = None then (Inl TypeError, s)
              else if \<exists>k \<in> set (map fst kw). k \<in> set (take np params)
                then (Inl TypeError, s)
              else if fn_keywords f = None \<and> (\<exists>k \<in> set (map fst kw). k \<notin> set params)
                then (Inl TypeError, s)
              else
                (case those (map (\<lambda>j. case map_of kw (params ! j) of
                                         Some v \<Rightarrow> Some v
                                       | None \<Rightarrow> if has_default f j
                                                  then Some (default_value f j)
                                                  else None) [np..<n]) of
                   None \<Rightarrow> (Inl TypeError, s)
                 | Some vs \<Rightarrow>
                     fn_body f (take n pos @ vs) (drop n pos)
                       (filter (\<lambda>(k, v). k \<notin> set params) kw) s)))"

section \<open>The decorator\<close>

text \<open>The result of \<open>inspect.getargspec\<close>; \<open>defaults\<close> is \<open>None\<close> when there are none.\<close>

record argspec =
  spec_args :: "string list"
  spec_varargs :: "string option"
  spec_keywords :: "string option"
  spec_defaults :: "pyval list option"

definition getargspec :: "'s pyobj \<Rightarrow> exn + argspec" where
  "getargspec obj =
     (case obj of
        Val v \<Rightarrow> Inl TypeError
      | Fun f \<Rightarrow> Inr \<lparr> spec_args = fn_args f, spec_varargs = fn_varargs f,
                      spec_keywords = fn_keywords f,
                      spec_defaults = (if fn_defaults f = [] then None
                                       else Some (fn_defaults f)) \<rparr>)"

text \<open>
  The variables that the wrapping function \<open>F\<close> closes over: \<open>f\<close> and \<open>_as\<close>, and the
  signature data \<open>keys\<close>, \<open>defaults\<close>, \<open>splat\<close> and \<open>defaults_begin\<close> that \<open>decorator\<close>
  computes once.
\<close>

record 's closure =
  cl_f :: "'s pyobj"
  cl_as :: "string option"
  cl_keys :: "string list"
  cl_defaults :: "pyval list"
  cl_splat :: "string option"
  cl_defaults_begin :: int

text \<open>
  The loop \<open>for i, x in enumerate(keys)\<close> of \<open>F\<close>, from index \<open>i\<close> on, with the list
  \<open>args\<close> built so far. It ends with the finished list or with the first exception.
\<close>

fun bind_loop ::
  "'s closure \<Rightarrow> dict \<Rightarrow> string list \<Rightarrow> nat \<Rightarrow> pyval list \<Rightarrow> exn + pyval list" where
  "bind_loop c d [] i args = Inr args"
| "bind_loop c d (x # xs) i args =
     (if truthy (cl_as c) \<and> Some x = cl_as c
      then bind_loop c d xs (Suc i) (args @ [PDict d])
      else
        (case map_of d x of
           Some v \<Rightarrow> bind_loop c d xs (Suc i) (args @ [v])
         | None \<Rightarrow>
             if cl_defaults_begin c \<le> int i
             then (case py_index (cl_defaults c) (int i - cl_defaults_begin c) of
                     Inl e \<Rightarrow> Inl e
                   | Inr v \<Rightarrow> bind_loop c d xs (Suc i) (args @ [v]))
             else Inl (KeyError x)))"

text \<open>
  The wrapping function. An exception of the loop leaves before the target is called, so
  the store is the one \<open>F\<close> started in. Otherwise the target is called, with the
  comprehension \<open>{k: v for k, v in items(d) if k not in keys}\<close> as keywords when the
  target has a \<open>**\<close> parameter, and its outcome is the outcome of \<open>F\<close>.
\<close>

definition F :: "'s closure \<Rightarrow> dict \<Rightarrow> 's \<Rightarrow> (exn + pyval) \<times> 's" where
  "F c d s =
     (case bind_loop c d (cl_keys c) 0 [] of
        Inl e \<Rightarrow> (Inl e, s)
      | Inr args \<Rightarrow>
          if truthy (cl_splat c)
          then py_call (cl_f c) args (filter (\<lambda>(k, v). k \<notin> set (cl_keys c)) d) s
          else py_call (cl_f c) args [] s)"

definition decorator :: "string option \<Rightarrow> 's pyobj \<Rightarrow> exn + 's closure" where
  "decorator as f =
     (case getargspec f of
        Inl e \<Rightarrow> Inl e
      | Inr argspec \<Rightarrow>
          (let keys = spec_args argspec;
               defaults = (case spec_defaults argspec of
                             None \<Rightarrow> []
                           | Some t \<Rightarrow> if t = [] then [] else t);
               splat = spec_keywords argspec;
               defaults_begin = int (length keys) - int (length defaults)
           in Inr \<lparr> cl_f = f, cl_as = as, cl_keys = keys, cl_defaults = defaults,
                    cl_splat = splat, cl_defaults_begin = defaults_begin \<rparr>))"

text \<open>
  What \<open>defk\<close> returns: the inner function \<open>decorator\<close>, closed over \<open>_as\<close>, or a wrapping
  function \<open>F\<close>, closed over the data of \<open>closure\<close>. \<open>Decorator as\<close> applied to a function
  \<open>f\<close> is \<open>decorator as f\<close>; \<open>Wrapped c\<close> applied to a mapping \<open>d\<close> is \<open>F c d\<close>.
\<close>

datatype 's defk_result = Decorator "string option" | Wrapped "'s closure"

text \<open>
  \<open>defk\<close>. The local \<open>f\<close> is assigned only when the argument is not a string, and is then
  the argument itself; it is read only on the last line, where an unassigned \<open>f\<close> raises.
\<close>

definition defk :: "'s pyobj \<Rightarrow> exn + 's defk_result" where
  "defk arg =
     (let (f, as) = (case arg of
                       Val (PStr str) \<Rightarrow> (None, Some str)
                     | _ \<Rightarrow> (Some arg, None))
      in if truthy as then Inr (Decorator as)
         else (case f of
                 None \<Rightarrow> Inl (UnboundLocalError ''f'')
               | Some g \<Rightarrow> (case decorator as g of
                              Inl e \<Rightarrow> Inl e
                            | Inr w \<Rightarrow> Inr (Wrapped w))))"

section \<open>The functions the module decorates\<close>

text \<open>The operator \<open>+\<close> on the values modelled here.\<close>

fun py_add :: "pyval \<Rightarrow> pyval \<Rightarrow> exn + pyval" where
  "py_add (PInt a) (PInt b) = Inr (PInt (a + b))"
| "py_add (PStr a) (PStr b) = Inr (PStr (a @ b))"
| "py_add (PList a) (PList b) = Inr (PList (a @ b))"
| "py_add _ _ = Inl TypeError"

text \<open>\<open>def test_simple(x, y): return x + y\<close>\<close>

definition test_simple :: "'s pyfunc" where
  "test_simple =
     \<lparr> fn_args = [''x'', ''y''], fn_varargs = None, fn_keywords = None, fn_defaults = [],
       fn_body = (\<lambda>args va kw s.
         case args of [x, y] \<Rightarrow> (py_add x y, s) | _ \<Rightarrow> (Inl TypeError, s)) \<rparr>"

text \<open>\<open>def test_defaults(x, y, z=10): return x + y + z\<close>\<close>

definition test_defaults :: "'s pyfunc" where
  "test_defaults =
     \<lparr> fn_args = [''x'', ''y'', ''z''], fn_varargs = None, fn_keywords = None,
       fn_defaults = [PInt 10],
       fn_body = (\<lambda>args va kw s.
         case args of
           [x, y, z] \<Rightarrow> (case py_add x y of Inl e \<Rightarrow> (Inl e, s) | Inr xy \<Rightarrow> (py_add xy z, s))
         | _ \<Rightarrow> (Inl TypeError, s)) \<rparr>"

text \<open>\<open>def test_splat(x, **y): return [x, y]\<close>\<close>

definition test_splat :: "'s pyfunc" where
  "test_splat =
     \<lparr> fn_args = [''x''], fn_varargs = None, fn_keywords = Some ''y'', fn_defaults = [],
       fn_body = (\<lambda>args va y s.
         case args of [x] \<Rightarrow> (Inr (PList [x, PDict y]), s) | _ \<Rightarrow> (Inl TypeError, s)) \<rparr>"

text \<open>\<open>def test_as_and_splat(x, z, **y): return [x, z, y]\<close>, decorated with \<open>@defk('z')\<close>\<close>

definition test_as_and_splat :: "'s pyfunc" where
  "test_as_and_splat =
     \<lparr> fn_args = [''x'', ''z''], fn_varargs = None, fn_keywords = Some ''y'',
       fn_defaults = [],
       fn_body = (\<lambda>args va y s.
         case args of [x, z] \<Rightarrow> (Inr (PList [x, z, PDict y]), s)
         | _ \<Rightarrow> (Inl TypeError, s)) \<rparr>"

text \<open>
  \<open>def test_complex(a, c, whole, r=101, **k): return [a, c, whole, r, k]\<close>, decorated with
  \<open>@defk('whole')\<close>
\<close>

definition test_complex :: "'s pyfunc" where
  "test_complex =
     \<lparr> fn_args = [''a'', ''c'', ''whole'', ''r''], fn_varargs = None,
       fn_keywords = Some ''k'', fn_defaults = [PInt 101],
       fn_body = (\<lambda>args va k s.
         case args of [a, c, whole, r] \<Rightarrow> (Inr (PList [a, c, whole, r, PDict k]), s)
         | _ \<Rightarrow> (Inl TypeError, s)) \<rparr>"

section \<open>Vocabulary of the properties\<close>

text \<open>\<open>k in d\<close>\<close>

definition has_key :: "dict \<Rightarrow> string \<Rightarrow> bool" where
  "has_key d k = (map_of d k \<noteq> None)"

text \<open>
  Parameter \<open>j\<close> of \<open>f\<close> is the alias when \<open>defk\<close> was given its name, a non-empty string.
  It is required when it has no default and is not the alias.
\<close>

definition alias_at :: "string option \<Rightarrow> 's pyfunc \<Rightarrow> nat \<Rightarrow> bool" where
  "alias_at as f j = (truthy as \<and> as = Some (fn_args f ! j))"

definition is_required :: "string option \<Rightarrow> 's pyfunc \<Rightarrow> nat \<Rightarrow> bool" where
  "is_required as f j =
     (j < length (fn_args f) \<and> \<not> has_default f j \<and> \<not> alias_at as f j)"

text \<open>The same notions on the data of a closure, at key \<open>x\<close> and loop index \<open>i\<close>.\<close>

definition is_alias :: "'s closure \<Rightarrow> string \<Rightarrow> bool" where
  "is_alias c x = (truthy (cl_as c) \<and> Some x = cl_as c)"

definition resolvable :: "'s closure \<Rightarrow> dict \<Rightarrow> string \<Rightarrow> nat \<Rightarrow> bool" where
  "resolvable c d x i =
     (is_alias c x \<or> map_of d x \<noteq> None \<or> cl_defaults_begin c \<le> int i)"

definition bound_value :: "'s closure \<Rightarrow> dict \<Rightarrow> string \<Rightarrow> nat \<Rightarrow> pyval" where
  "bound_value c d x i =
     (if is_alias c x then PDict d
      else case map_of d x of
             Some v \<Rightarrow> v
           | None \<Rightarrow> cl_defaults c ! nat (int i - cl_defaults_begin c))"

section \<open>Two further targets\<close>


definition alias_default_example :: "'s pyfunc" where
  "alias_default_example =
     \<lparr> fn_args = [''a'', ''whole''], fn_varargs = None, fn_keywords = None,
       fn_defaults = [PNone],
       fn_body = (\<lambda>args va kw s.
         case args of [a, whole] \<Rightarrow> (Inr (PList [a, whole]), s)
         | _ \<Rightarrow> (Inl TypeError, s)) \<rparr>"

section \<open>Calls in a store\<close>

text \<open>
  To speak of what a call of \<open>F\<close> leaves behind, the objects it reads are placed in the
  store: the contents of the dict object that the caller passes, the signature data held
  in the closure cells of \<open>F\<close>, and the rest of the program's state. The target runs in
  this store and can change any of it; the dict it can reach through the alias parameter.
\<close>

record 'u store =
  st_mapping :: dict
  st_keys :: "string list"
  st_defaults :: "pyval list"
  st_splat :: "string option"
  st_defaults_begin :: int
  st_user :: 'u

text \<open>The call \<open>F(m)\<close> in a store: \<open>F\<close> runs on what the store holds at that moment.\<close>

definition invoke ::
  "('u store) pyobj \<Rightarrow> string option \<Rightarrow> 'u store \<Rightarrow> (exn + pyval) \<times> 'u store" where
  "invoke f as w =
     F \<lparr> cl_f = f, cl_as = as, cl_keys = st_keys w, cl_defaults = st_defaults w,
         cl_splat = st_splat w, cl_defaults_begin = st_defaults_begin w \<rparr>
       (st_mapping w) w"

text \<open>
  Two stores hold the same objects when the mapping and the signature data are the same in
  both; the rest of the program's state may differ.
\<close>

definition same_objects :: "'u store \<Rightarrow> 'u store \<Rightarrow> bool" where
  "same_objects w w' =
     (st_mapping w' = st_mapping w \<and> st_keys w' = st_keys w \<and>
      st_defaults w' = st_defaults w \<and> st_splat w' = st_splat w \<and>
      st_defaults_begin w' = st_defaults_begin w)"

text \<open>The assignment \<open>d[k] = v\<close>: an existing key keeps its place.\<close>

fun py_setitem :: "dict \<Rightarrow> string \<Rightarrow> pyval \<Rightarrow> dict" where
  "py_setitem [] k v = [(k, v)]"
| "py_setitem ((k', v') # d) k v =
     (if k' = k then (k, v) # d else (k', v') # py_setitem d k v)"

text \<open>
  Two targets that are not in the module and that act on the store. The dict that
  \<open>bump_example\<close> receives as \<open>whole\<close> is the caller's own dict object, so its assignment
  changes the mapping held in the store:
  \<open>def bump_example(whole): whole['n'] = whole.get('n', 0) + 1; return whole['n']\<close>.
  \<open>tally_example\<close> counts its calls in a global and returns its argument:
  \<open>def tally_example(a): global calls; calls += 1; return a\<close>.
\<close>

definition bump_example :: "('u store) pyfunc" where
  "bump_example =
     \<lparr> fn_args = [''whole''], fn_varargs = None, fn_keywords = None, fn_defaults = [],
       fn_body = (\<lambda>args va kw w.
         case args of
           [PDict m] \<Rightarrow>
             (case py_add (case map_of m ''n'' of None \<Rightarrow> PInt 0 | Some x \<Rightarrow> x) (PInt 1) of
                Inl e \<Rightarrow> (Inl e, w)
              | Inr n \<Rightarrow> (Inr n, w\<lparr>st_mapping := py_setitem m ''n'' n\<rparr>))
         | _ \<Rightarrow> (Inl TypeError, w)) \<rparr>"

definition tally_example :: "(nat store) pyfunc" where
  "tally_example =
     \<lparr> fn_args = [''a''], fn_varargs = None, fn_keywords = None, fn_defaults = [],
       fn_body = (\<lambda>args va kw w.
         case args of [a] \<Rightarrow> (Inr a, w\<lparr>st_user := Suc (st_user w)\<rparr>)
         | _ \<Rightarrow> (Inl TypeError, w)) \<rparr>"

section \<open>The binding loop\<close>

lemma py_index_in_range:
  "0 \<le> i \<Longrightarrow> i < int (length xs) \<Longrightarrow> py_index xs i = Inr (xs ! nat i)"
  by (simp add: py_index_def)

lemma bind_loop_ok:
  assumes "\<forall>j < length xs. resolvable c d (xs ! j) (i + j)"
    and "int (i + length xs) - cl_defaults_begin c \<le> int (length (cl_defaults c))"
  shows "bind_loop c d xs i args =
           Inr (args @ map (\<lambda>j. bound_value c d (xs ! j) (i + j)) [0..<length xs])"
  using assms
proof (induction xs arbitrary: i args)
  case Nil
  then show ?case by simp
next
  case (Cons x xs)
  have r0: "resolvable c d x i" using Cons.prems(1) by force
  have rs: "\<forall>j < length xs. resolvable c d (xs ! j) (Suc i + j)"
    using Cons.prems(1) by force
  have rng: "int (Suc i + length xs) - cl_defaults_begin c \<le> int (length (cl_defaults c))"
    using Cons.prems(2) by simp
  have IH: "\<And>args'. bind_loop c d xs (Suc i) args' =
      Inr (args' @ map (\<lambda>j. bound_value c d (xs ! j) (Suc i + j)) [0..<length xs])"
    using Cons.IH[OF rs rng] .
  have shift: "map (\<lambda>j. bound_value c d ((x # xs) ! j) (i + j)) [0..<length (x # xs)] =
      bound_value c d x i # map (\<lambda>j. bound_value c d (xs ! j) (Suc i + j)) [0..<length xs]"
    by (simp add: upt_conv_Cons map_Suc_upt[symmetric] del: upt_Suc)
  have idx: "cl_defaults_begin c \<le> int i \<Longrightarrow>
      py_index (cl_defaults c) (int i - cl_defaults_begin c) =
        Inr (cl_defaults c ! nat (int i - cl_defaults_begin c))"
    using Cons.prems(2) by (intro py_index_in_range) auto
  have step: "bind_loop c d (x # xs) i args =
      bind_loop c d xs (Suc i) (args @ [bound_value c d x i])"
    using r0 idx
    by (auto simp: resolvable_def bound_value_def is_alias_def split: option.splits)
  show ?case
    unfolding step IH shift by simp
qed

lemma bind_loop_fail:
  assumes "j < length xs"
    and "\<forall>j' < j. resolvable c d (xs ! j') (i + j')"
    and "\<not> resolvable c d (xs ! j) (i + j)"
    and "int (i + j) - cl_defaults_begin c \<le> int (length (cl_defaults c))"
  shows "bind_loop c d xs i args = Inl (KeyError (xs ! j))"
  using assms
proof (induction xs arbitrary: i args j)
  case Nil
  then show ?case by simp
next
  case (Cons x xs)
  show ?case
  proof (cases j)
    case 0
    then show ?thesis using Cons.prems(3)
      by (auto simp: resolvable_def is_alias_def split: option.splits)
  next
    case (Suc j0)
    have r0: "resolvable c d x i" using Cons.prems(2) Suc by force
    have a: "j0 < length xs" using Cons.prems(1) Suc by simp
    have b: "\<forall>j' < j0. resolvable c d (xs ! j') (Suc i + j')"
    proof (intro allI impI)
      fix j' assume "j' < j0"
      then have "Suc j' < j" using Suc by simp
      then have "resolvable c d ((x # xs) ! Suc j') (i + Suc j')"
        using Cons.prems(2) by blast
      then show "resolvable c d (xs ! j') (Suc i + j')" by simp
    qed
    have cc: "\<not> resolvable c d (xs ! j0) (Suc i + j0)"
      using Cons.prems(3) Suc by simp
    have rng: "int (Suc i + j0) - cl_defaults_begin c \<le> int (length (cl_defaults c))"
      using Cons.prems(4) Suc by simp
    have IH: "\<And>args'. bind_loop c d xs (Suc i) args' = Inl (KeyError (xs ! j0))"
      using Cons.IH[OF a b cc rng] .
    have idx: "cl_defaults_begin c \<le> int i \<Longrightarrow>
      py_index (cl_defaults c) (int i - cl_defaults_begin c) =
        Inr (cl_defaults c ! nat (int i - cl_defaults_begin c))"
      using Cons.prems(4) Suc by (intro py_index_in_range) auto
    have step: "bind_loop c d (x # xs) i args =
        bind_loop c d xs (Suc i) (args @ [bound_value c d x i])"
      using r0 idx
      by (auto simp: resolvable_def bound_value_def is_alias_def split: option.splits)
    show ?thesis
      unfolding step IH using Suc by simp
  qed
qed

lemma py_call_exact:
  assumes "length pos = length (fn_args f)"
    and "\<forall>k \<in> set (map fst kw). k \<notin> set (fn_args f)"
    and "fn_keywords f = None \<longrightarrow> kw = []"
  shows "py_call (Fun f) pos kw s = fn_body f pos [] kw s"
proof -
  have flt: "filter (\<lambda>(k, v). k \<notin> set (fn_args f)) kw = kw"
    using assms(2) by (auto simp: filter_id_conv)
  have nb: "\<not> (\<exists>k \<in> set (map fst kw). k \<in> set (take (length pos) (fn_args f)))"
    using assms(2) by (auto dest: in_set_takeD)
  show ?thesis
    using assms nb flt unfolding py_call_def Let_def
    by (cases "fn_keywords f") auto
qed


lemma decorator_Fun:
  "decorator as (Fun f) =
     Inr \<lparr> cl_f = Fun f, cl_as = as, cl_keys = fn_args f, cl_defaults = fn_defaults f,
           cl_splat = fn_keywords f,
           cl_defaults_begin = int (length (fn_args f)) - int (length (fn_defaults f)) \<rparr>"
  by (simp add: decorator_def getargspec_def Let_def)

lemma decorator_fields:
  assumes "decorator as (Fun f) = Inr c"
  shows "cl_f c = Fun f" "cl_as c = as" "cl_keys c = fn_args f"
    "cl_defaults c = fn_defaults f" "cl_splat c = fn_keywords f"
    "cl_defaults_begin c = int (length (fn_args f)) - int (length (fn_defaults f))"
  using assms unfolding decorator_Fun by auto

lemma resolvable_decorated:
  assumes "decorator as (Fun f) = Inr c"
  shows "resolvable c d (fn_args f ! j) j \<longleftrightarrow>
           alias_at as f j \<or> has_key d (fn_args f ! j) \<or> has_default f j"
  by (auto simp: resolvable_def is_alias_def alias_at_def has_key_def has_default_def
      decorator_fields[OF assms])

lemma bound_value_decorated:
  assumes "decorator as (Fun f) = Inr c"
  shows "bound_value c d (fn_args f ! j) j =
           (if alias_at as f j then PDict d
            else case map_of d (fn_args f ! j) of
                   Some v \<Rightarrow> v
                 | None \<Rightarrow> default_value f j)"
  by (auto simp: bound_value_def is_alias_def alias_at_def default_value_def
      decorator_fields[OF assms] split: option.splits)

lemma bind_loop_decorated:
  assumes dec: "decorator as (Fun f) = Inr c"
    and req: "\<forall>j. is_required as f j \<longrightarrow> has_key d (fn_args f ! j)"
  shows "bind_loop c d (cl_keys c) 0 [] =
           Inr (map (\<lambda>j. if alias_at as f j then PDict d
                         else case map_of d (fn_args f ! j) of
                                Some v \<Rightarrow> v
                              | None \<Rightarrow> default_value f j) [0..<length (fn_args f)])"
proof -
  have res: "\<forall>j < length (cl_keys c). resolvable c d (cl_keys c ! j) (0 + j)"
    using req by (auto simp: decorator_fields[OF dec] resolvable_decorated[OF dec]
        is_required_def)
  have rng: "int (0 + length (cl_keys c)) - cl_defaults_begin c
               \<le> int (length (cl_defaults c))"
    by (simp add: decorator_fields[OF dec])
  show ?thesis
    unfolding bind_loop_ok[OF res rng]
    by (simp add: decorator_fields[OF dec] bound_value_decorated[OF dec])
qed

lemma rest_keys_fresh:
  "\<forall>k \<in> set (map fst (filter (\<lambda>(k, v). k \<notin> set ks) d)). k \<notin> set ks"
  by auto

lemma F_calls_target:
  assumes dec: "decorator as (Fun f) = Inr c"
    and req: "\<forall>j. is_required as f j \<longrightarrow> has_key d (fn_args f ! j)"
  shows "F c d s =
           fn_body f
             (map (\<lambda>j. if alias_at as f j then PDict d
                        else case map_of d (fn_args f ! j) of
                               Some v \<Rightarrow> v
                             | None \<Rightarrow> default_value f j) [0..<length (fn_args f)])
             []
             (if truthy (fn_keywords f)
              then filter (\<lambda>(k, v). k \<notin> set (fn_args f)) d else [])
             s"
proof (cases "truthy (fn_keywords f)")
  case True
  then have kw: "fn_keywords f = None \<longrightarrow> filter (\<lambda>(k, v). k \<notin> set (fn_args f)) d = []"
    by (auto simp: truthy_def)
  show ?thesis
    unfolding F_def bind_loop_decorated[OF dec req]
    using True
    by (simp add: decorator_fields[OF dec] py_call_exact[OF _ rest_keys_fresh kw])
next
  case False
  then show ?thesis
    unfolding F_def bind_loop_decorated[OF dec req]
    by (simp add: decorator_fields[OF dec] py_call_exact)
qed

lemma F_key_error:
  assumes dec: "decorator as (Fun f) = Inr c"
    and i: "is_required as f i" "\<not> has_key d (fn_args f ! i)"
    and before: "\<forall>j < i. is_required as f j \<longrightarrow> has_key d (fn_args f ! j)"
  shows "F c d s = (Inl (KeyError (fn_args f ! i)), s)"
proof -
  have len: "i < length (cl_keys c)"
    using i(1) by (simp add: is_required_def decorator_fields[OF dec])
  have res: "\<forall>j < i. resolvable c d (cl_keys c ! j) (0 + j)"
    using before len
    by (auto simp: decorator_fields[OF dec] resolvable_decorated[OF dec] is_required_def)
  have bad: "\<not> resolvable c d (cl_keys c ! i) (0 + i)"
    using i by (auto simp: decorator_fields[OF dec] resolvable_decorated[OF dec]
        is_required_def)
  have rng: "int (0 + i) - cl_defaults_begin c \<le> int (length (cl_defaults c))"
    using len by (simp add: decorator_fields[OF dec])
  show ?thesis
    unfolding F_def bind_loop_fail[OF len res bad rng]
    by (simp add: decorator_fields[OF dec])
qed

lemma bind_loop_stops:
  assumes dec: "decorator as (Fun f) = Inr c"
    and i: "is_required as f i" "\<not> has_key d (fn_args f ! i)"
    and before: "\<forall>j < i. is_required as f j \<longrightarrow> has_key d (fn_args f ! j)"
  shows "bind_loop c d (take i (fn_args f) @ fn_args f ! i # post) 0 args
           = Inl (KeyError (fn_args f ! i))"
proof -
  let ?xs = "take i (fn_args f) @ fn_args f ! i # post"
  have n: "i < length (fn_args f)"
    using i(1) by (simp add: is_required_def)
  have at: "?xs ! i = fn_args f ! i"
    using n by (simp add: nth_append)
  have pre: "?xs ! j = fn_args f ! j" if "j < i" for j
    using n that by (simp add: nth_append)
  have len: "i < length ?xs"
    using n by simp
  have res: "\<forall>j < i. resolvable c d (?xs ! j) (0 + j)"
    using before n
    by (auto simp: pre resolvable_decorated[OF dec] is_required_def)
  have bad: "\<not> resolvable c d (?xs ! i) (0 + i)"
    unfolding at using i by (auto simp: resolvable_decorated[OF dec] is_required_def)
  have rng: "int (0 + i) - cl_defaults_begin c \<le> int (length (cl_defaults c))"
    using n by (simp add: decorator_fields[OF dec])
  show ?thesis
    using bind_loop_fail[OF len res bad rng, of args] unfolding at .
qed

lemma defk_Fun:
  "defk (Fun f) =
     (case decorator None (Fun f) of Inl e \<Rightarrow> Inl e | Inr w \<Rightarrow> Inr (Wrapped w))"
  by (simp add: defk_def truthy_def)

lemma defk_alias:
  "a \<noteq> [] \<Longrightarrow> defk (Val (PStr a)) = Inr (Decorator (Some a))"
  by (simp add: defk_def truthy_def)

section \<open>Functions with required parameters only\<close>

text \<open>
  C1. Let the target have no defaults and no \<open>**\<close> parameter, and let it be decorated with
  a bare \<open>@defk\<close>, so without an alias. If the mapping \<open>d\<close> has every parameter name as a
  key, \<open>vs\<close> being the values of \<open>d\<close> at the parameter names in declaration order, then
  the wrapping function applied to \<open>d\<close> does what the direct positional call
  \<open>f(*vs)\<close> does: same result, same store.
\<close>

theorem defk_required_only:
  assumes "fn_defaults f = []"
    and "fn_keywords f = None"
    and "map (map_of d) (fn_args f) = map Some vs"
  shows "\<exists>c. defk (Fun f) = Inr (Wrapped c) \<and> F c d s = py_call (Fun f) vs [] s"
proof -
  obtain c where dec: "decorator None (Fun f) = Inr c"
    using decorator_Fun by blast
  have len: "length vs = length (fn_args f)"
    using assms(3) by (metis length_map)
  have val: "map_of d (fn_args f ! j) = Some (vs ! j)" if "j < length (fn_args f)" for j
  proof -
    have "map (map_of d) (fn_args f) ! j = map Some vs ! j"
      using assms(3) by simp
    then show ?thesis using that len by simp
  qed
  have req: "\<forall>j. is_required None f j \<longrightarrow> has_key d (fn_args f ! j)"
    by (simp add: is_required_def has_key_def val)
  have args: "map (\<lambda>j. if alias_at None f j then PDict d
                        else case map_of d (fn_args f ! j) of
                               Some v \<Rightarrow> v
                             | None \<Rightarrow> default_value f j) [0..<length (fn_args f)] = vs"
    by (rule nth_equalityI) (simp_all add: len val alias_at_def truthy_def)
  have "F c d s = fn_body f vs [] [] s"
    unfolding F_calls_target[OF dec req] args
    by (simp add: assms(2) truthy_def)
  moreover have "py_call (Fun f) vs [] s = fn_body f vs [] [] s"
    by (rule py_call_exact) (simp_all add: len)
  ultimately show ?thesis
    using dec by (simp add: defk_Fun)
qed

theorem defk_required_only_witness:
  "\<exists>c. defk (Fun test_simple) = Inr (Wrapped c) \<and>
       F c [(''x'', PInt 1), (''y'', PInt 5), (''z'', PInt 10)] () = (Inr (PInt 6), ())"
proof -
  have a: "fn_defaults (test_simple :: unit pyfunc) = []"
    by (simp add: test_simple_def)
  have b: "fn_keywords (test_simple :: unit pyfunc) = None"
    by (simp add: test_simple_def)
  have c: "map (map_of [(''x'', PInt 1), (''y'', PInt 5), (''z'', PInt 10)])
             (fn_args (test_simple :: unit pyfunc)) = map Some [PInt 1, PInt 5]"
    by (simp add: test_simple_def)
  have call: "py_call (Fun test_simple) [PInt 1, PInt 5] [] () = (Inr (PInt 6), ())"
    by (simp add: py_call_def test_simple_def)
  show ?thesis
    using defk_required_only[OF a b c, of "()"] unfolding call .
qed

lemma decorator_body:
  assumes "decorator as (Fun f) = Inr c"
  shows "decorator as (Fun (f\<lparr>fn_body := b\<rparr>)) = Inr (c\<lparr>cl_f := Fun (f\<lparr>fn_body := b\<rparr>)\<rparr>)"
  using assms unfolding decorator_Fun by auto

lemma is_required_body: "is_required as (f\<lparr>fn_body := b\<rparr>) j = is_required as f j"
  by (simp add: is_required_def has_default_def alias_at_def)

section \<open>A missing required key\<close>

text \<open>
  C2. Let parameter \<open>i\<close> be required (no default, not the alias) and absent from the
  mapping, and let every required parameter declared before it be present, so that \<open>i\<close>
  is the first such parameter in declaration order. Then the call of the wrapping function
  ends with \<open>KeyError\<close> on the name of parameter \<open>i\<close>. The parameters after it are not
  processed: the loop ends in this way whatever list of names \<open>post\<close> follows parameter
  \<open>i\<close>. The target is not invoked: the store is the one the call started in, and the
  outcome is the same for every body the target could have, also one that would change the
  store or raise.
\<close>

theorem F_missing_key:
  assumes "decorator as (Fun f) = Inr c"
    and "is_required as f i"
    and "\<not> has_key d (fn_args f ! i)"
    and "\<forall>j < i. is_required as f j \<longrightarrow> has_key d (fn_args f ! j)"
  shows "F c d s = (Inl (KeyError (fn_args f ! i)), s) \<and>
         (\<forall>post. bind_loop c d (take i (fn_args f) @ fn_args f ! i # post) 0 []
                   = Inl (KeyError (fn_args f ! i))) \<and>
         (\<forall>b. F (c\<lparr>cl_f := Fun (f\<lparr>fn_body := b\<rparr>)\<rparr>) d s
                = (Inl (KeyError (fn_args f ! i)), s))"
proof (intro conjI allI)
  show "F c d s = (Inl (KeyError (fn_args f ! i)), s)"
    by (rule F_key_error[OF assms])
next
  fix post
  show "bind_loop c d (take i (fn_args f) @ fn_args f ! i # post) 0 []
          = Inl (KeyError (fn_args f ! i))"
    by (rule bind_loop_stops[OF assms])
next
  fix b
  let ?g = "f\<lparr>fn_body := b\<rparr>"
  have "F (c\<lparr>cl_f := Fun ?g\<rparr>) d s = (Inl (KeyError (fn_args ?g ! i)), s)"
    by (rule F_key_error[OF decorator_body[OF assms(1)]])
      (use assms(2-4) in \<open>simp_all add: is_required_body\<close>)
  then show "F (c\<lparr>cl_f := Fun ?g\<rparr>) d s = (Inl (KeyError (fn_args f ! i)), s)"
    by simp
qed

theorem F_missing_key_witness:
  "\<exists>c. decorator None (Fun test_simple) = Inr c \<and>
       is_required None (test_simple :: nat pyfunc) 1 \<and>
       \<not> has_key [(''x'', PInt 5)] ''y'' \<and>
       F c [(''x'', PInt 5)] (0::nat) = (Inl (KeyError ''y''), 0) \<and>
       F (c\<lparr>cl_f := Fun (test_simple\<lparr>fn_body := (\<lambda>args va kw n. (Inr PNone, Suc n))\<rparr>)\<rparr>)
         [(''x'', PInt 5)] (0::nat) = (Inl (KeyError ''y''), 0)"
proof -
  obtain c where dec: "decorator None (Fun (test_simple :: nat pyfunc)) = Inr c"
    using decorator_Fun by blast
  have r: "is_required None (test_simple :: nat pyfunc) 1"
    by (simp add: is_required_def has_default_def alias_at_def truthy_def test_simple_def)
  have k: "\<not> has_key [(''x'', PInt 5)] (fn_args (test_simple :: nat pyfunc) ! 1)"
    by (simp add: has_key_def test_simple_def)
  have b: "\<forall>j < 1. is_required None (test_simple :: nat pyfunc) j \<longrightarrow>
             has_key [(''x'', PInt 5)] (fn_args (test_simple :: nat pyfunc) ! j)"
    by (simp add: has_key_def test_simple_def)
  have y: "fn_args (test_simple :: nat pyfunc) ! 1 = ''y''"
    by (simp add: test_simple_def)
  show ?thesis
    using F_missing_key[OF dec r k b, of 0] dec r k unfolding y by blast
qed

section \<open>The scenario of \<open>test_complex\<close>\<close>

text \<open>
  C7. \<open>test_complex\<close>, declared \<open>(a, c, whole, r=101, **k)\<close> and decorated with
  \<open>@defk('whole')\<close>, is applied to \<open>{'a': 1, 'c': 5, 'f': 9}\<close>. The target is called
  with \<open>a = 1\<close>, \<open>c = 5\<close>, \<open>whole\<close> the entire mapping, \<open>r = 101\<close> and
  \<open>k = {'f': 9}\<close>: this is shown for any body \<open>b\<close> in place of the body of
  \<open>test_complex\<close>, and for its own body, which returns the five values as a list.
\<close>

theorem test_complex_call:
  "defk (Val (PStr ''whole'')) = Inr (Decorator (Some ''whole'')) \<and>
   (\<exists>c. decorator (Some ''whole'') (Fun (test_complex\<lparr>fn_body := b\<rparr>)) = Inr c \<and>
        F c [(''a'', PInt 1), (''c'', PInt 5), (''f'', PInt 9)] s
          = b [PInt 1, PInt 5, PDict [(''a'', PInt 1), (''c'', PInt 5), (''f'', PInt 9)],
               PInt 101] [] [(''f'', PInt 9)] s) \<and>
   (\<exists>c. decorator (Some ''whole'') (Fun test_complex) = Inr c \<and>
        F c [(''a'', PInt 1), (''c'', PInt 5), (''f'', PInt 9)] s
          = (Inr (PList [PInt 1, PInt 5,
                         PDict [(''a'', PInt 1), (''c'', PInt 5), (''f'', PInt 9)],
                         PInt 101, PDict [(''f'', PInt 9)]]), s))"
proof (intro conjI)
  show "defk (Val (PStr ''whole'')) = Inr (Decorator (Some ''whole''))"
    by (simp add: defk_alias)
next
  show "\<exists>c. decorator (Some ''whole'') (Fun (test_complex\<lparr>fn_body := b\<rparr>)) = Inr c \<and>
        F c [(''a'', PInt 1), (''c'', PInt 5), (''f'', PInt 9)] s
          = b [PInt 1, PInt 5, PDict [(''a'', PInt 1), (''c'', PInt 5), (''f'', PInt 9)],
               PInt 101] [] [(''f'', PInt 9)] s"
    by (simp add: decorator_Fun F_def test_complex_def truthy_def py_index_def py_call_def)
next
  show "\<exists>c. decorator (Some ''whole'') (Fun test_complex) = Inr c \<and>
        F c [(''a'', PInt 1), (''c'', PInt 5), (''f'', PInt 9)] s
          = (Inr (PList [PInt 1, PInt 5,
                         PDict [(''a'', PInt 1), (''c'', PInt 5), (''f'', PInt 9)],
                         PInt 101, PDict [(''f'', PInt 9)]]), s)"
    by (simp add: decorator_Fun F_def test_complex_def truthy_def py_index_def py_call_def)
qed

section \<open>The empty alias\<close>

text \<open>
  C9. \<open>defk('')\<close> raises the error of reading the unassigned local \<open>f\<close>: the empty string
  is a string, so \<open>f\<close> is not assigned, and it is falsy, so the last line calls
  \<open>decorator(f)\<close>. For a non-empty string \<open>defk\<close> returns the decorator, and a decorator
  is returned for no other argument.
\<close>

theorem defk_empty_alias:
  "(defk (Val (PStr [])) :: exn + 's defk_result) = Inl (UnboundLocalError ''f'') \<and>
   (\<forall>a. a \<noteq> [] \<longrightarrow>
        (defk (Val (PStr a)) :: exn + 's defk_result) = Inr (Decorator (Some a))) \<and>
   (\<forall>(arg :: 's pyobj) r.
        defk arg = Inr (Decorator r) \<longrightarrow> (\<exists>a. a \<noteq> [] \<and> arg = Val (PStr a) \<and> r = Some a))"
proof (intro conjI allI impI)
  show "(defk (Val (PStr [])) :: exn + 's defk_result) = Inl (UnboundLocalError ''f'')"
    by (simp add: defk_def truthy_def)
next
  fix a :: string assume "a \<noteq> []"
  then show "(defk (Val (PStr a)) :: exn + 's defk_result) = Inr (Decorator (Some a))"
    by (rule defk_alias)
next
  fix arg :: "'s pyobj" and r
  assume "defk arg = Inr (Decorator r)"
  then show "\<exists>a. a \<noteq> [] \<and> arg = Val (PStr a) \<and> r = Some a"
    by (auto simp: defk_def truthy_def split: pyobj.splits pyval.splits if_splits sum.splits)
qed

theorem defk_empty_alias_witness:
  "(defk (Val (PStr [])) :: exn + unit defk_result) = Inl (UnboundLocalError ''f'') \<and>
   ''z'' \<noteq> [] \<and>
   (defk (Val (PStr ''z'')) :: exn + unit defk_result) = Inr (Decorator (Some ''z''))"
  using defk_empty_alias[where ?'s = unit] by simp

section \<open>Further facts about the loop and the call\<close>

lemma bind_loop_alias_no_error:
  "is_alias c a \<Longrightarrow> bind_loop c d xs i args \<noteq> Inl (KeyError a)"
proof (induction xs arbitrary: i args)
  case Nil
  then show ?case by simp
next
  case (Cons x xs)
  then show ?case
    by (auto simp: is_alias_def py_index_def split: option.splits sum.splits if_splits)
qed

lemma map_of_rest:
  "map_of (filter (\<lambda>(k, v). k \<notin> set ks) d) k = (if k \<in> set ks then None else map_of d k)"
  by (induction d) auto

lemma py_call_uniform:
  "(\<forall>s. py_call (Fun f) pos kw s = (Inl TypeError, s)) \<or>
   (\<exists>args va kw'. \<forall>s. py_call (Fun f) pos kw s = fn_body f args va kw' s)"
proof -
  let ?bad = "(length (fn_args f) < length pos \<and> fn_varargs f = None) \<or>
              (\<exists>k \<in> set (map fst kw). k \<in> set (take (length pos) (fn_args f))) \<or>
              (fn_keywords f = None \<and> (\<exists>k \<in> set (map fst kw). k \<notin> set (fn_args f)))"
  let ?vals = "those (map (\<lambda>j. case map_of kw (fn_args f ! j) of
                                   Some v \<Rightarrow> Some v
                                 | None \<Rightarrow> if has_default f j
                                            then Some (default_value f j)
                                            else None) [length pos..<length (fn_args f)])"
  have unf: "py_call (Fun f) pos kw s =
      (if ?bad then (Inl TypeError, s)
       else case ?vals of
              None \<Rightarrow> (Inl TypeError, s)
            | Some vs \<Rightarrow> fn_body f (take (length (fn_args f)) pos @ vs)
                          (drop (length (fn_args f)) pos)
                          (filter (\<lambda>(k, v). k \<notin> set (fn_args f)) kw) s)" for s
    unfolding py_call_def Let_def by auto
  show ?thesis
  proof (cases ?bad)
    case True
    then show ?thesis by (simp only: unf if_P) simp
  next
    case False
    show ?thesis
    proof (cases ?vals)
      case None
      then show ?thesis by (simp only: unf if_not_P[OF False] option.simps) simp
    next
      case (Some vs)
      have "\<forall>s. py_call (Fun f) pos kw s =
              fn_body f (take (length (fn_args f)) pos @ vs)
                (drop (length (fn_args f)) pos)
                (filter (\<lambda>(k, v). k \<notin> set (fn_args f)) kw) s"
        by (simp only: unf if_not_P[OF False] Some option.simps) simp
      then show ?thesis by blast
    qed
  qed
qed

lemma F_uniform:
  assumes "cl_f c = Fun f"
  shows "(\<exists>e. \<forall>s. F c d s = (Inl e, s)) \<or>
         (\<exists>args va kw. \<forall>s. F c d s = fn_body f args va kw s)"
proof (cases "bind_loop c d (cl_keys c) 0 []")
  case (Inl e)
  then show ?thesis by (simp add: F_def)
next
  case (Inr args)
  show ?thesis
  proof (cases "truthy (cl_splat c)")
    case True
    then show ?thesis
      using py_call_uniform[of f args "filter (\<lambda>(k, v). k \<notin> set (cl_keys c)) d"] Inr assms
      by (auto simp: F_def)
  next
    case False
    then show ?thesis
      using py_call_uniform[of f args "[]"] Inr assms
      by (auto simp: F_def)
  qed
qed

lemma invoke_uniform:
  "(\<exists>e. \<forall>w'. same_objects w w' \<longrightarrow> invoke (Fun f) as w' = (Inl e, w')) \<or>
   (\<exists>args va kw. \<forall>w'. same_objects w w' \<longrightarrow>
        invoke (Fun f) as w' = fn_body f args va kw w')"
proof -
  let ?c = "\<lparr> cl_f = Fun f, cl_as = as, cl_keys = st_keys w, cl_defaults = st_defaults w,
         cl_splat = st_splat w, cl_defaults_begin = st_defaults_begin w \<rparr>"
  have inv: "invoke (Fun f) as w' = F ?c (st_mapping w) w'" if "same_objects w w'" for w'
    using that by (simp add: invoke_def same_objects_def)
  have "cl_f ?c = Fun f" by simp
  from F_uniform[OF this, of "st_mapping w"] show ?thesis
    using inv by metis
qed

lemma same_objects_refl: "same_objects w w"
  by (simp add: same_objects_def)

lemma same_objects_trans: "same_objects a b \<Longrightarrow> same_objects b c \<Longrightarrow> same_objects a c"
  by (simp add: same_objects_def)

lemma invoke_same_objects:
  assumes pres: "\<forall>args va kw w1. same_objects w1 (snd (fn_body f args va kw w1))"
    and indep: "\<forall>args va kw w1 w2. same_objects w1 w2 \<longrightarrow>
                  fst (fn_body f args va kw w2) = fst (fn_body f args va kw w1)"
    and so: "same_objects w w'"
  shows "fst (invoke (Fun f) as w') = fst (invoke (Fun f) as w)"
    and "same_objects w (snd (invoke (Fun f) as w'))"
proof -
  from invoke_uniform[of w f as]
  consider (err) e where "\<forall>w'. same_objects w w' \<longrightarrow> invoke (Fun f) as w' = (Inl e, w')"
    | (call) args va kw where
        "\<forall>w'. same_objects w w' \<longrightarrow> invoke (Fun f) as w' = fn_body f args va kw w'"
    by blast
  then have "fst (invoke (Fun f) as w') = fst (invoke (Fun f) as w) \<and>
             same_objects w (snd (invoke (Fun f) as w'))"
  proof cases
    case err
    then show ?thesis using so same_objects_refl[of w] by simp
  next
    case call
    have a: "invoke (Fun f) as w' = fn_body f args va kw w'"
      using call so by blast
    have b: "invoke (Fun f) as w = fn_body f args va kw w"
      using call same_objects_refl by blast
    have "same_objects w' (snd (fn_body f args va kw w'))"
      using pres by blast
    then have "same_objects w (snd (fn_body f args va kw w'))"
      using so same_objects_trans by blast
    moreover have "fst (fn_body f args va kw w') = fst (fn_body f args va kw w)"
      using indep so by blast
    ultimately show ?thesis using a b by simp
  qed
  then show "fst (invoke (Fun f) as w') = fst (invoke (Fun f) as w)"
    and "same_objects w (snd (invoke (Fun f) as w'))"
    by simp_all
qed

lemma bump_example_deterministic:
  "fst (fn_body bump_example args va kw w) = fst (fn_body bump_example args va kw w')"
  by (simp add: bump_example_def split: list.splits pyval.splits sum.splits)

lemma bind_loop_unmatched:
  assumes "a \<notin> set xs"
  shows "bind_loop (c\<lparr>cl_as := Some a\<rparr>) d xs i args
           = bind_loop (c\<lparr>cl_as := None\<rparr>) d xs i args"
  using assms
  by (induction xs arbitrary: i args)
     (auto simp: truthy_def split: option.splits sum.splits)

lemma F_unmatched:
  assumes "a \<notin> set (cl_keys c)"
  shows "F (c\<lparr>cl_as := Some a\<rparr>) d s = F (c\<lparr>cl_as := None\<rparr>) d s"
  using bind_loop_unmatched[OF assms, of c d 0 "[]"]
  by (simp add: F_def split: sum.splits)

section \<open>Targets with a \<open>*\<close> parameter\<close>




section \<open>Defaults\<close>

text \<open>
  Against C4 as stated: the alias test comes first in the loop, so a parameter that is the
  alias and has a default never takes the default nor the value under its own key. At
  \<open>alias_default_example\<close> with alias \<open>whole\<close>, whose default is \<open>None\<close>: on \<open>{'a': 1}\<close>,
  which lacks the key, and on \<open>{'a': 1, 'whole': 7}\<close>, which has it, \<open>whole\<close> is bound to
  the mapping.
\<close>

theorem alias_default_example_call:
  "has_default (alias_default_example :: unit pyfunc) 1 \<and>
   fn_args (alias_default_example :: unit pyfunc) ! 1 = ''whole'' \<and>
   default_value (alias_default_example :: unit pyfunc) 1 = PNone \<and>
   decorator (Some ''whole'') (Fun (alias_default_example :: unit pyfunc)) =
     Inr \<lparr> cl_f = Fun alias_default_example, cl_as = Some ''whole'',
           cl_keys = [''a'', ''whole''], cl_defaults = [PNone], cl_splat = None,
           cl_defaults_begin = 1 \<rparr> \<and>
   \<not> has_key [(''a'', PInt 1)] ''whole'' \<and>
   bind_loop \<lparr> cl_f = Fun (alias_default_example :: unit pyfunc), cl_as = Some ''whole'',
       cl_keys = [''a'', ''whole''], cl_defaults = [PNone], cl_splat = None,
       cl_defaults_begin = 1 \<rparr>
     [(''a'', PInt 1)] [''a'', ''whole''] 0 [] = Inr [PInt 1, PDict [(''a'', PInt 1)]] \<and>
   F \<lparr> cl_f = Fun (alias_default_example :: unit pyfunc), cl_as = Some ''whole'',
       cl_keys = [''a'', ''whole''], cl_defaults = [PNone], cl_splat = None,
       cl_defaults_begin = 1 \<rparr>
     [(''a'', PInt 1)] () = (Inr (PList [PInt 1, PDict [(''a'', PInt 1)]]), ()) \<and>
   has_key [(''a'', PInt 1), (''whole'', PInt 7)] ''whole'' \<and>
   bind_loop \<lparr> cl_f = Fun (alias_default_example :: unit pyfunc), cl_as = Some ''whole'',
       cl_keys = [''a'', ''whole''], cl_defaults = [PNone], cl_splat = None,
       cl_defaults_begin = 1 \<rparr>
     [(''a'', PInt 1), (''whole'', PInt 7)] [''a'', ''whole''] 0 []
     = Inr [PInt 1, PDict [(''a'', PInt 1), (''whole'', PInt 7)]] \<and>
   F \<lparr> cl_f = Fun (alias_default_example :: unit pyfunc), cl_as = Some ''whole'',
       cl_keys = [''a'', ''whole''], cl_defaults = [PNone], cl_splat = None,
       cl_defaults_begin = 1 \<rparr>
     [(''a'', PInt 1), (''whole'', PInt 7)] ()
     = (Inr (PList [PInt 1, PDict [(''a'', PInt 1), (''whole'', PInt 7)]]), ())"
  by (simp add: decorator_Fun alias_default_example_def F_def py_call_def truthy_def
      has_default_def default_value_def has_key_def)

text \<open>
  C4, as the code has it. Let parameter \<open>i\<close> have a default and not be the alias, and let
  every required parameter have its key in the mapping. Then the loop finishes, the
  target is called with the list it built, and entry \<open>i\<close> of that list is the declared
  default of parameter \<open>i\<close> when the mapping lacks its name, and the value of the mapping
  under its name when the mapping has it.
\<close>

theorem default_fallback:
  assumes "decorator as (Fun f) = Inr c"
    and "i < length (fn_args f)"
    and "has_default f i"
    and "\<not> alias_at as f i"
    and "\<forall>j. is_required as f j \<longrightarrow> has_key d (fn_args f ! j)"
  shows "\<exists>args rest.
           bind_loop c d (cl_keys c) 0 [] = Inr args \<and>
           F c d s = fn_body f args [] rest s \<and>
           length args = length (fn_args f) \<and>
           args ! i = (case map_of d (fn_args f ! i) of
                         None \<Rightarrow> default_value f i
                       | Some v \<Rightarrow> v)"
proof -
  let ?args = "map (\<lambda>j. if alias_at as f j then PDict d
                         else case map_of d (fn_args f ! j) of
                                Some v \<Rightarrow> v
                              | None \<Rightarrow> default_value f j) [0..<length (fn_args f)]"
  have "?args ! i = (case map_of d (fn_args f ! i) of
                       None \<Rightarrow> default_value f i | Some v \<Rightarrow> v)"
    using assms(2,4) by (simp split: option.splits)
  moreover have "length ?args = length (fn_args f)" by simp
  ultimately show ?thesis
    using bind_loop_decorated[OF assms(1,5)] F_calls_target[OF assms(1,5)] by blast
qed

theorem default_fallback_witness:
  "\<exists>c. decorator None (Fun (test_defaults :: unit pyfunc)) = Inr c \<and>
       has_default (test_defaults :: unit pyfunc) 2 \<and>
       (\<exists>args rest.
           bind_loop c [(''x'', PInt 1), (''y'', PInt 5)] (cl_keys c) 0 [] = Inr args \<and>
           F c [(''x'', PInt 1), (''y'', PInt 5)] ()
             = fn_body test_defaults args [] rest () \<and>
           length args = 3 \<and> args ! 2 = PInt 10) \<and>
       (\<exists>args rest.
           bind_loop c [(''x'', PInt 1), (''y'', PInt 5), (''z'', PInt 2)] (cl_keys c) 0 []
             = Inr args \<and>
           F c [(''x'', PInt 1), (''y'', PInt 5), (''z'', PInt 2)] ()
             = fn_body test_defaults args [] rest () \<and>
           length args = 3 \<and> args ! 2 = PInt 2) \<and>
       F c [(''x'', PInt 1), (''y'', PInt 5)] () = (Inr (PInt 16), ()) \<and>
       F c [(''x'', PInt 1), (''y'', PInt 5), (''z'', PInt 2)] () = (Inr (PInt 8), ())"
proof -
  obtain c where dec: "decorator None (Fun (test_defaults :: unit pyfunc)) = Inr c"
    using decorator_Fun by blast
  have run: "F c [(''x'', PInt 1), (''y'', PInt 5)] () = (Inr (PInt 16), ())"
    "F c [(''x'', PInt 1), (''y'', PInt 5), (''z'', PInt 2)] () = (Inr (PInt 8), ())"
    using dec unfolding decorator_Fun
    by (auto simp: F_def test_defaults_def truthy_def py_index_def py_call_def)
  have i: "2 < length (fn_args (test_defaults :: unit pyfunc))"
    by (simp add: test_defaults_def)
  have hd: "has_default (test_defaults :: unit pyfunc) 2"
    by (simp add: has_default_def test_defaults_def)
  have na: "\<not> alias_at None (test_defaults :: unit pyfunc) 2"
    by (simp add: alias_at_def truthy_def)
  have req: "\<forall>j. is_required None (test_defaults :: unit pyfunc) j \<longrightarrow> j < 2"
    by (auto simp: is_required_def has_default_def test_defaults_def)
  have r1: "\<forall>j. is_required None (test_defaults :: unit pyfunc) j \<longrightarrow>
      has_key [(''x'', PInt 1), (''y'', PInt 5)] (fn_args (test_defaults :: unit pyfunc) ! j)"
    using req by (auto simp: has_key_def test_defaults_def less_Suc_eq numeral_2_eq_2)
  have r2: "\<forall>j. is_required None (test_defaults :: unit pyfunc) j \<longrightarrow>
      has_key [(''x'', PInt 1), (''y'', PInt 5), (''z'', PInt 2)]
        (fn_args (test_defaults :: unit pyfunc) ! j)"
    using req by (auto simp: has_key_def test_defaults_def less_Suc_eq numeral_2_eq_2)
  have dv: "default_value (test_defaults :: unit pyfunc) 2 = PInt 10"
    by (simp add: default_value_def test_defaults_def)
  have n: "length (fn_args (test_defaults :: unit pyfunc)) = 3"
    "fn_args (test_defaults :: unit pyfunc) ! 2 = ''z''"
    by (simp_all add: test_defaults_def)
  show ?thesis
    using default_fallback[OF dec i hd na r1, of "()"]
      default_fallback[OF dec i hd na r2, of "()"] dec hd run
    by (simp add: n dv)
qed

section \<open>The alias parameter\<close>

text \<open>
  C5. Let \<open>defk\<close> be given the non-empty name \<open>a\<close> and let parameter \<open>i\<close> of the target be
  named \<open>a\<close>. The loop raises \<open>KeyError\<close> on \<open>a\<close> for no mapping: the name is never looked
  up. In an invocation in which every required parameter has its key, the target is
  called with the list built by the loop, whose entry \<open>i\<close> is the entire mapping, also
  when the mapping has a key \<open>a\<close>; every entry of a parameter not named \<open>a\<close> is the value of
  the mapping under the parameter's name, or its default when the mapping lacks the name.
\<close>

theorem alias_gets_mapping:
  assumes "a \<noteq> []"
    and "i < length (fn_args f)"
    and "fn_args f ! i = a"
    and "\<forall>j. is_required (Some a) f j \<longrightarrow> has_key d (fn_args f ! j)"
  shows "defk (Val (PStr a)) = Inr (Decorator (Some a)) \<and>
         (\<exists>c args rest.
            decorator (Some a) (Fun f) = Inr c \<and>
            (\<forall>d'. bind_loop c d' (cl_keys c) 0 [] \<noteq> Inl (KeyError a)) \<and>
            bind_loop c d (cl_keys c) 0 [] = Inr args \<and>
            F c d s = fn_body f args [] rest s \<and>
            length args = length (fn_args f) \<and>
            args ! i = PDict d \<and>
            (\<forall>j < length (fn_args f). fn_args f ! j \<noteq> a \<longrightarrow>
               args ! j = (case map_of d (fn_args f ! j) of
                             Some v \<Rightarrow> v
                           | None \<Rightarrow> default_value f j)))"
proof -
  obtain c where dec: "decorator (Some a) (Fun f) = Inr c"
    using decorator_Fun by blast
  let ?args = "map (\<lambda>j. if alias_at (Some a) f j then PDict d
                         else case map_of d (fn_args f ! j) of
                                Some v \<Rightarrow> v
                              | None \<Rightarrow> default_value f j) [0..<length (fn_args f)]"
  have al: "alias_at (Some a) f j \<longleftrightarrow> fn_args f ! j = a" for j
    using assms(1) by (auto simp: alias_at_def truthy_def)
  have isal: "is_alias c a"
    using assms(1) by (simp add: is_alias_def truthy_def decorator_fields[OF dec])
  have 1: "\<forall>d'. bind_loop c d' (cl_keys c) 0 [] \<noteq> Inl (KeyError a)"
    using bind_loop_alias_no_error[OF isal] by blast
  have 2: "?args ! i = PDict d"
    using assms(2,3) by (simp add: al)
  have 3: "\<forall>j < length (fn_args f). fn_args f ! j \<noteq> a \<longrightarrow>
             ?args ! j = (case map_of d (fn_args f ! j) of
                            Some v \<Rightarrow> v
                          | None \<Rightarrow> default_value f j)"
    by (auto simp: al split: option.splits)
  have 4: "length ?args = length (fn_args f)" by simp
  have 5: "decorator (Some a) (Fun f) = Inr c"
    using dec by simp
  show ?thesis
    using defk_alias[OF assms(1)] 1 2 3 4 5
      bind_loop_decorated[OF dec assms(4)] F_calls_target[OF dec assms(4)]
    by blast
qed

theorem alias_gets_mapping_witness:
  "''z'' \<noteq> [] \<and> fn_args (test_as_and_splat :: unit pyfunc) ! 1 = ''z'' \<and>
   has_key [(''x'', PInt 1), (''z'', PInt 7), (''c'', PInt 5)] ''z'' \<and>
   defk (Val (PStr ''z'') :: unit pyobj) = Inr (Decorator (Some ''z'')) \<and>
   (\<exists>c args rest.
      decorator (Some ''z'') (Fun (test_as_and_splat :: unit pyfunc)) = Inr c \<and>
      bind_loop c [(''x'', PInt 1), (''z'', PInt 7), (''c'', PInt 5)] (cl_keys c) 0 []
        = Inr args \<and>
      F c [(''x'', PInt 1), (''z'', PInt 7), (''c'', PInt 5)] ()
        = fn_body test_as_and_splat args [] rest () \<and>
      length args = 2 \<and>
      args ! 1 = PDict [(''x'', PInt 1), (''z'', PInt 7), (''c'', PInt 5)])"
proof -
  have a: "''z'' \<noteq> []" by simp
  have i: "1 < length (fn_args (test_as_and_splat :: unit pyfunc))"
    by (simp add: test_as_and_splat_def)
  have z: "fn_args (test_as_and_splat :: unit pyfunc) ! 1 = ''z''"
    by (simp add: test_as_and_splat_def)
  have n: "length (fn_args (test_as_and_splat :: unit pyfunc)) = 2"
    by (simp add: test_as_and_splat_def)
  have hk: "has_key [(''x'', PInt 1), (''z'', PInt 7), (''c'', PInt 5)] ''z''"
    by (simp add: has_key_def)
  have req: "\<forall>j. is_required (Some ''z'') (test_as_and_splat :: unit pyfunc) j \<longrightarrow>
      has_key [(''x'', PInt 1), (''z'', PInt 7), (''c'', PInt 5)]
        (fn_args (test_as_and_splat :: unit pyfunc) ! j)"
  proof (intro allI impI)
    fix j
    assume "is_required (Some ''z'') (test_as_and_splat :: unit pyfunc) j"
    then have "j < 2"
      by (simp add: is_required_def test_as_and_splat_def)
    then consider "j = 0" | "j = 1" by linarith
    then show "has_key [(''x'', PInt 1), (''z'', PInt 7), (''c'', PInt 5)]
                 (fn_args (test_as_and_splat :: unit pyfunc) ! j)"
      by cases (simp_all add: has_key_def test_as_and_splat_def)
  qed
  show ?thesis
    using alias_gets_mapping[OF a i z req, of "()"] z hk
    by (simp add: n) blast
qed

section \<open>The remainder parameter\<close>

text \<open>
  C6. Let the target have a \<open>**\<close> parameter. In an invocation in which every required
  parameter has its key, the dict passed to the \<open>**\<close> parameter holds exactly the items
  of the mapping whose key is not the name of a declared parameter: the name of the alias
  parameter and the names of parameters with defaults are left out whether or not the
  mapping has them, and every other key is kept with its value.
\<close>

theorem remainder_is_rest:
  assumes "decorator as (Fun f) = Inr c"
    and "fn_keywords f = Some r"
    and "r \<noteq> []"
    and "\<forall>j. is_required as f j \<longrightarrow> has_key d (fn_args f ! j)"
  shows "\<exists>args rest.
           F c d s = fn_body f args [] rest s \<and>
           rest = filter (\<lambda>(k, v). k \<notin> set (fn_args f)) d \<and>
           (\<forall>k v. (k, v) \<in> set rest \<longleftrightarrow> (k, v) \<in> set d \<and> k \<notin> set (fn_args f)) \<and>
           (\<forall>k. map_of rest k = (if k \<in> set (fn_args f) then None else map_of d k)) \<and>
           (distinct (map fst d) \<longrightarrow> distinct (map fst rest))"
proof -
  let ?rest = "filter (\<lambda>(k, v). k \<notin> set (fn_args f)) d"
  have t: "truthy (fn_keywords f)"
    using assms(2,3) by (simp add: truthy_def)
  have 1: "\<forall>k v. (k, v) \<in> set ?rest \<longleftrightarrow> (k, v) \<in> set d \<and> k \<notin> set (fn_args f)"
    by auto
  have 2: "\<forall>k. map_of ?rest k = (if k \<in> set (fn_args f) then None else map_of d k)"
    using map_of_rest by fast
  have 3: "distinct (map fst d) \<longrightarrow> distinct (map fst ?rest)"
    by (simp add: distinct_map_filter)
  show ?thesis
    using F_calls_target[OF assms(1,4), of s] t 1 2 3 by (simp del: set_filter) blast
qed

theorem remainder_is_rest_witness:
  "\<exists>c. decorator (Some ''z'') (Fun (test_as_and_splat :: unit pyfunc)) = Inr c \<and>
       fn_keywords (test_as_and_splat :: unit pyfunc) = Some ''y'' \<and>
       F c [(''x'', PInt 1), (''y'', PInt 2), (''c'', PInt 5)] ()
         = (Inr (PList [PInt 1, PDict [(''x'', PInt 1), (''y'', PInt 2), (''c'', PInt 5)],
                        PDict [(''y'', PInt 2), (''c'', PInt 5)]]), ()) \<and>
       (\<exists>args. F c [(''x'', PInt 1), (''y'', PInt 2), (''c'', PInt 5)] ()
                 = fn_body test_as_and_splat args [] [(''y'', PInt 2), (''c'', PInt 5)] ())"
proof -
  let ?d = "[(''x'', PInt 1), (''y'', PInt 2), (''c'', PInt 5)]"
  obtain c where dec: "decorator (Some ''z'') (Fun (test_as_and_splat :: unit pyfunc)) = Inr c"
    using decorator_Fun by blast
  have k: "fn_keywords (test_as_and_splat :: unit pyfunc) = Some ''y''"
    by (simp add: test_as_and_splat_def)
  have y: "''y'' \<noteq> []" by simp
  have req: "\<forall>j. is_required (Some ''z'') (test_as_and_splat :: unit pyfunc) j \<longrightarrow>
      has_key ?d (fn_args (test_as_and_splat :: unit pyfunc) ! j)"
  proof (intro allI impI)
    fix j
    assume r: "is_required (Some ''z'') (test_as_and_splat :: unit pyfunc) j"
    then have "j < 2"
      by (simp add: is_required_def test_as_and_splat_def)
    then consider "j = 0" | "j = 1" by linarith
    then show "has_key ?d (fn_args (test_as_and_splat :: unit pyfunc) ! j)"
    proof cases
      case 1
      then show ?thesis by (simp add: has_key_def test_as_and_splat_def)
    next
      case 2
      then show ?thesis
        using r by (simp add: is_required_def alias_at_def truthy_def test_as_and_splat_def)
    qed
  qed
  have rest: "filter (\<lambda>(k, v). k \<notin> set (fn_args (test_as_and_splat :: unit pyfunc))) ?d
                = [(''y'', PInt 2), (''c'', PInt 5)]"
    by (simp add: test_as_and_splat_def)
  have run: "F c ?d () = (Inr (PList [PInt 1, PDict ?d,
                                      PDict [(''y'', PInt 2), (''c'', PInt 5)]]), ())"
    using dec unfolding decorator_Fun
    by (auto simp: F_def test_as_and_splat_def truthy_def py_call_def)
  show ?thesis
    using remainder_is_rest[OF dec k y req, of "()"] dec k run unfolding rest by blast
qed

section \<open>Repeated invocation\<close>

text \<open>
  Against C8 as stated: the alias parameter receives the caller's own dict, so a target can
  write to the mapping. The result of \<open>bump_example\<close> is determined by its argument, yet
  two invocations on the same mapping object return \<open>1\<close> and then \<open>2\<close>, and the mapping
  has gained the key \<open>n\<close>.
\<close>

theorem bump_example_changes:
  "invoke (Fun (bump_example :: (unit store) pyfunc)) (Some ''whole'')
     \<lparr> st_mapping = [(''a'', PInt 1)], st_keys = [''whole''], st_defaults = [],
       st_splat = None, st_defaults_begin = 1, st_user = () \<rparr>
   = (Inr (PInt 1),
      \<lparr> st_mapping = [(''a'', PInt 1), (''n'', PInt 1)], st_keys = [''whole''],
        st_defaults = [], st_splat = None, st_defaults_begin = 1, st_user = () \<rparr>) \<and>
   invoke (Fun (bump_example :: (unit store) pyfunc)) (Some ''whole'')
     \<lparr> st_mapping = [(''a'', PInt 1), (''n'', PInt 1)], st_keys = [''whole''],
       st_defaults = [], st_splat = None, st_defaults_begin = 1, st_user = () \<rparr>
   = (Inr (PInt 2),
      \<lparr> st_mapping = [(''a'', PInt 1), (''n'', PInt 2)], st_keys = [''whole''],
        st_defaults = [], st_splat = None, st_defaults_begin = 1, st_user = () \<rparr>) \<and>
   fn_body (bump_example :: (unit store) pyfunc) [PDict [(''a'', PInt 1)]] [] []
     \<lparr> st_mapping = [], st_keys = [], st_defaults = [], st_splat = None,
       st_defaults_begin = 0, st_user = () \<rparr>
   = (Inr (PInt 1),
      \<lparr> st_mapping = [(''a'', PInt 1), (''n'', PInt 1)], st_keys = [], st_defaults = [],
        st_splat = None, st_defaults_begin = 0, st_user = () \<rparr>)"
  by (simp add: invoke_def F_def bump_example_def truthy_def py_call_def)

text \<open>
  C8, as the code has it. The wrapping function writes nothing to the store itself: an
  invocation ends with an exception in the store it started in, or its outcome, result and
  store, is that of the target's body run in the store the invocation started in. Let the
  target leave the mapping and the signature data as it finds them, whatever else it
  changes, and let its result be the same in stores that hold the same mapping and
  signature data. Then after any number of invocations the mapping and the signature data
  are what they were at the start, and the next invocation returns the result of the
  first.
\<close>

theorem invoke_repeatable:
  "((\<exists>e. invoke (Fun f) as w = (Inl e, w)) \<or>
    (\<exists>args va kw. invoke (Fun f) as w = fn_body f args va kw w)) \<and>
   ((\<forall>args va kw w1. same_objects w1 (snd (fn_body f args va kw w1))) \<and>
    (\<forall>args va kw w1 w2. same_objects w1 w2 \<longrightarrow>
        fst (fn_body f args va kw w2) = fst (fn_body f args va kw w1))
    \<longrightarrow> (\<forall>n. same_objects w (((\<lambda>w'. snd (invoke (Fun f) as w')) ^^ n) w) \<and>
             fst (invoke (Fun f) as (((\<lambda>w'. snd (invoke (Fun f) as w')) ^^ n) w))
               = fst (invoke (Fun f) as w)))"
proof (intro conjI impI allI)
  from invoke_uniform[of w f as] same_objects_refl[of w]
  show "(\<exists>e. invoke (Fun f) as w = (Inl e, w)) \<or>
        (\<exists>args va kw. invoke (Fun f) as w = fn_body f args va kw w)"
    by blast
next
  fix n
  assume h: "(\<forall>args va kw w1. same_objects w1 (snd (fn_body f args va kw w1))) \<and>
    (\<forall>args va kw w1 w2. same_objects w1 w2 \<longrightarrow>
        fst (fn_body f args va kw w2) = fst (fn_body f args va kw w1))"
  then have pres: "\<forall>args va kw w1. same_objects w1 (snd (fn_body f args va kw w1))"
    and indep: "\<forall>args va kw w1 w2. same_objects w1 w2 \<longrightarrow>
        fst (fn_body f args va kw w2) = fst (fn_body f args va kw w1)"
    by blast+
  show "same_objects w (((\<lambda>w'. snd (invoke (Fun f) as w')) ^^ n) w)"
  proof (induction n)
    case 0
    show ?case by (simp add: same_objects_refl)
  next
    case (Suc n)
    show ?case
      using invoke_same_objects(2)[OF pres indep Suc, of as] by simp
  qed
  then show "fst (invoke (Fun f) as (((\<lambda>w'. snd (invoke (Fun f) as w')) ^^ n) w))
               = fst (invoke (Fun f) as w)"
    using invoke_same_objects(1)[OF pres indep] by blast
qed

theorem invoke_repeatable_witness:
  "invoke (Fun tally_example) None
     \<lparr> st_mapping = [(''a'', PInt 1)], st_keys = [''a''], st_defaults = [],
       st_splat = None, st_defaults_begin = 1, st_user = 0 \<rparr>
   = (Inr (PInt 1),
      \<lparr> st_mapping = [(''a'', PInt 1)], st_keys = [''a''], st_defaults = [],
        st_splat = None, st_defaults_begin = 1, st_user = 1 \<rparr>) \<and>
   fst (invoke (Fun tally_example) None
          (snd (invoke (Fun tally_example) None
             \<lparr> st_mapping = [(''a'', PInt 1)], st_keys = [''a''], st_defaults = [],
               st_splat = None, st_defaults_begin = 1, st_user = 0 \<rparr>)))
   = Inr (PInt 1) \<and>
   same_objects
     \<lparr> st_mapping = [(''a'', PInt 1)], st_keys = [''a''], st_defaults = [],
       st_splat = None, st_defaults_begin = 1, st_user = 0 \<rparr>
     (snd (invoke (Fun tally_example) None
        \<lparr> st_mapping = [(''a'', PInt 1)], st_keys = [''a''], st_defaults = [],
          st_splat = None, st_defaults_begin = 1, st_user = 0 \<rparr>))"
proof -
  let ?w = "\<lparr> st_mapping = [(''a'', PInt 1)], st_keys = [''a''], st_defaults = [],
       st_splat = None, st_defaults_begin = 1, st_user = 0::nat \<rparr>"
  have pres: "\<forall>args va kw w1. same_objects w1 (snd (fn_body tally_example args va kw w1))"
    by (simp add: tally_example_def same_objects_def split: list.splits)
  have indep: "\<forall>args va kw w1 w2. same_objects w1 w2 \<longrightarrow>
        fst (fn_body tally_example args va kw w2) = fst (fn_body tally_example args va kw w1)"
    by (simp add: tally_example_def split: list.splits)
  have run: "invoke (Fun tally_example) None ?w = (Inr (PInt 1), ?w\<lparr>st_user := 1\<rparr>)"
    by (simp add: invoke_def F_def tally_example_def truthy_def py_call_def)
  from invoke_repeatable[of tally_example None ?w] pres indep
  have rep: "\<forall>n. same_objects ?w (((\<lambda>w'. snd (invoke (Fun tally_example) None w')) ^^ n) ?w) \<and>
             fst (invoke (Fun tally_example) None
                    (((\<lambda>w'. snd (invoke (Fun tally_example) None w')) ^^ n) ?w))
               = fst (invoke (Fun tally_example) None ?w)"
    by blast
  have one: "same_objects ?w (snd (invoke (Fun tally_example) None ?w))"
    "fst (invoke (Fun tally_example) None (snd (invoke (Fun tally_example) None ?w)))
       = fst (invoke (Fun tally_example) None ?w)"
    using rep[rule_format, of 1] by simp_all
  show ?thesis
    using one run by simp
qed

section \<open>An alias that names no parameter\<close>

text \<open>
  C10. Let \<open>defk\<close> be given a non-empty name \<open>a\<close> that is not a parameter of the target.
  Construction succeeds, and the wrapping function behaves on every mapping and store as
  the one that a bare \<open>@defk\<close> builds. In an invocation in which every required
  parameter has its key, the target is called with the list built by the loop, each
  entry the value of the mapping under the parameter's name or else the default, so no
  parameter receives the mapping; and when the target has a \<open>**\<close> parameter, an item of
  the mapping under the key \<open>a\<close> is passed on in the remainder.
\<close>

theorem unmatched_alias:
  assumes "a \<noteq> []"
    and "a \<notin> set (fn_args f)"
  shows "defk (Val (PStr a)) = Inr (Decorator (Some a)) \<and>
         (\<exists>c c0.
            decorator (Some a) (Fun f) = Inr c \<and>
            defk (Fun f) = Inr (Wrapped c0) \<and>
            (\<forall>d s. F c d s = F c0 d s) \<and>
            (\<forall>d s. (\<forall>j. is_required None f j \<longrightarrow> has_key d (fn_args f ! j)) \<longrightarrow>
               (\<exists>args rest.
                  bind_loop c d (cl_keys c) 0 [] = Inr args \<and>
                  F c d s = fn_body f args [] rest s \<and>
                  length args = length (fn_args f) \<and>
                  (\<forall>j < length (fn_args f).
                     args ! j = (case map_of d (fn_args f ! j) of
                                   Some v \<Rightarrow> v
                                 | None \<Rightarrow> default_value f j)) \<and>
                  (\<forall>v. truthy (fn_keywords f) \<and> map_of d a = Some v
                        \<longrightarrow> map_of rest a = Some v))))"
proof -
  obtain c where dec: "decorator (Some a) (Fun f) = Inr c"
    using decorator_Fun by blast
  obtain c0 where dec0: "decorator None (Fun f) = Inr c0"
    using decorator_Fun by blast
  have cc: "c = c0\<lparr>cl_as := Some a\<rparr>" "c0 = c0\<lparr>cl_as := None\<rparr>"
    using dec dec0 unfolding decorator_Fun by auto
  have keys: "a \<notin> set (cl_keys c0)"
    using assms(2) by (simp add: decorator_fields[OF dec0])
  have same: "\<forall>d s. F c d s = F c0 d s"
    using F_unmatched[OF keys] cc by metis
  have noal: "\<not> alias_at (Some a) f j" if "j < length (fn_args f)" for j
    using assms(2) that by (auto simp: alias_at_def)
  have reqeq: "is_required (Some a) f j = is_required None f j" for j
    using noal[of j] by (auto simp: is_required_def alias_at_def truthy_def)
  have call: "\<exists>args rest.
                  bind_loop c d (cl_keys c) 0 [] = Inr args \<and>
                  F c d s = fn_body f args [] rest s \<and>
                  length args = length (fn_args f) \<and>
                  (\<forall>j < length (fn_args f).
                     args ! j = (case map_of d (fn_args f ! j) of
                                   Some v \<Rightarrow> v
                                 | None \<Rightarrow> default_value f j)) \<and>
                  (\<forall>v. truthy (fn_keywords f) \<and> map_of d a = Some v
                        \<longrightarrow> map_of rest a = Some v)"
    if req0: "\<forall>j. is_required None f j \<longrightarrow> has_key d (fn_args f ! j)" for d s
  proof -
    have req: "\<forall>j. is_required (Some a) f j \<longrightarrow> has_key d (fn_args f ! j)"
      using req0 by (simp add: reqeq)
    let ?args = "map (\<lambda>j. if alias_at (Some a) f j then PDict d
                         else case map_of d (fn_args f ! j) of
                                Some v \<Rightarrow> v
                              | None \<Rightarrow> default_value f j) [0..<length (fn_args f)]"
    let ?rest = "if truthy (fn_keywords f)
                 then filter (\<lambda>(k, v). k \<notin> set (fn_args f)) d else []"
    have 1: "\<forall>j < length (fn_args f).
               ?args ! j = (case map_of d (fn_args f ! j) of
                              Some v \<Rightarrow> v
                            | None \<Rightarrow> default_value f j)"
      by (auto simp: noal split: option.splits)
    have 2: "\<forall>v. truthy (fn_keywords f) \<and> map_of d a = Some v
                  \<longrightarrow> map_of ?rest a = Some v"
      using assms(2) by (simp add: map_of_rest)
    have 3: "length ?args = length (fn_args f)" by simp
    show ?thesis
      using bind_loop_decorated[OF dec req] F_calls_target[OF dec req, of s] 1 2 3
      by blast
  qed
  have d1: "decorator (Some a) (Fun f) = Inr c"
    using dec by simp
  have d2: "defk (Fun f) = Inr (Wrapped c0)"
    using dec0 by (simp add: defk_Fun)
  show ?thesis
    using defk_alias[OF assms(1)] d1 d2 same call by blast
qed

theorem unmatched_alias_witness:
  "''q'' \<noteq> [] \<and> ''q'' \<notin> set (fn_args (test_splat :: unit pyfunc)) \<and>
   defk (Val (PStr ''q'') :: unit pyobj) = Inr (Decorator (Some ''q'')) \<and>
   (\<exists>c. decorator (Some ''q'') (Fun (test_splat :: unit pyfunc)) = Inr c \<and>
        F c [(''x'', PInt 1), (''q'', PInt 2)] ()
          = (Inr (PList [PInt 1, PDict [(''q'', PInt 2)]]), ()))"
proof -
  have a: "''q'' \<noteq> []" by simp
  have b: "''q'' \<notin> set (fn_args (test_splat :: unit pyfunc))"
    by (simp add: test_splat_def)
  from unmatched_alias[OF a b]
  obtain c c0 where c: "decorator (Some ''q'') (Fun (test_splat :: unit pyfunc)) = Inr c"
    and c0: "defk (Fun (test_splat :: unit pyfunc)) = Inr (Wrapped c0)"
    and same: "\<forall>d s. F c d s = F c0 d s"
    and dk: "defk (Val (PStr ''q'') :: unit pyobj) = Inr (Decorator (Some ''q''))"
    by blast
  have "F c0 [(''x'', PInt 1), (''q'', PInt 2)] ()
          = (Inr (PList [PInt 1, PDict [(''q'', PInt 2)]]), ())"
    using c0 unfolding defk_Fun decorator_Fun
    by (auto simp: F_def test_splat_def truthy_def py_call_def)
  then show ?thesis
    using a b c dk same by auto
qed

end
